theory Spec2Isabelle
  imports Complex_Main
begin

section \<open>Python values used by the middleware service\<close>

text \<open>
  The service of \<^verbatim>\<open>src/middleware_service.py\<close> keeps five dictionaries keyed by room
  name, reads temperature messages and drives a REST backend. A Python float is
  modelled by its exact value: every finite float is a real number, and the code only
  compares temperatures with the constants 0, 30 and 50, so no rounding is involved.
  The three special values that \<^verbatim>\<open>float()\<close> can return are kept apart.
\<close>

datatype pyfloat = Fin real | PosInf | NegInf | NaN

datatype py_error = KeyError | IndexError | ValueError

text \<open>\<^verbatim>\<open>0 <= temp <= 50\<close>; every comparison with NaN is false.\<close>

fun in_range :: "pyfloat \<Rightarrow> bool" where
  "in_range (Fin x) = (0 \<le> x \<and> x \<le> 50)"
| "in_range PosInf = False"
| "in_range NegInf = False"
| "in_range NaN = False"

text \<open>\<^verbatim>\<open>temp > 30\<close>.\<close>

fun above_threshold :: "pyfloat \<Rightarrow> bool" where
  "above_threshold (Fin x) = (30 < x)"
| "above_threshold PosInf = True"
| "above_threshold NegInf = False"
| "above_threshold NaN = False"

subsection \<open>Dictionaries\<close>

text \<open>
  A Python dict keeps its keys in insertion order and the control loop iterates over
  one, so a dict is an association list: assignment to an existing key replaces the
  value in place, assignment to a new key appends it.
\<close>

type_synonym ('k, 'v) dict = "('k \<times> 'v) list"

fun dict_get :: "('k, 'v) dict \<Rightarrow> 'k \<Rightarrow> 'v option" where
  "dict_get [] k = None"
| "dict_get ((k', v) # d) k = (if k' = k then Some v else dict_get d k)"

fun dict_set :: "('k, 'v) dict \<Rightarrow> 'k \<Rightarrow> 'v \<Rightarrow> ('k, 'v) dict" where
  "dict_set [] k v = [(k, v)]"
| "dict_set ((k', v') # d) k v =
     (if k' = k then (k, v) # d else (k', v') # dict_set d k v)"

definition dict_keys :: "('k, 'v) dict \<Rightarrow> 'k list" where
  "dict_keys d = map fst d"

text \<open>The comprehension \<^verbatim>\<open>{room: v for room in ROOMS}\<close>.\<close>

definition from_keys :: "'k list \<Rightarrow> 'v \<Rightarrow> ('k, 'v) dict" where
  "from_keys ks v = foldl (\<lambda>d k. dict_set d k v) [] ks"

subsection \<open>Configuration constants\<close>

definition ROOMS :: "string list" where
  "ROOMS = [''room1'', ''room2'', ''room3'', ''room4'', ''room5'']"

definition API_Rerty_Limit :: nat where
  "API_Rerty_Limit = 3"

definition Invalid_Data_Limit :: int where
  "Invalid_Data_Limit = 3"

section \<open>The service state\<close>

text \<open>
  The five dictionaries of \<^verbatim>\<open>MiddlewareService.__init__\<close>. \<open>hvac_active\<close> holds
  \<^verbatim>\<open>None\<close>, \<^verbatim>\<open>True\<close> or \<^verbatim>\<open>False\<close>: a \<open>bool option\<close>. The field \<open>http_log\<close> is not
  a field of the Python object: it records every HTTP request the service has issued,
  one entry per attempt, so that "no backend call" can be stated.
\<close>

datatype request = Get string | Post string bool

record service =
  temperatures :: "(string, pyfloat) dict"
  hvac_active :: "(string, bool option) dict"
  invalid_counts :: "(string, int) dict"
  sensor_error :: "(string, bool) dict"
  api_error :: "(string, bool) dict"
  http_log :: "request list"

definition init_service :: service where
  "init_service =
     \<lparr>temperatures = from_keys ROOMS (Fin 0),
      hvac_active = from_keys ROOMS None,
      invalid_counts = from_keys ROOMS 0,
      sensor_error = from_keys ROOMS False,
      api_error = from_keys ROOMS False,
      http_log = []\<rparr>"

section \<open>Ingestion: \<^verbatim>\<open>on_message\<close>\<close>

text \<open>
  A message carries its topic and the outcome of \<^verbatim>\<open>float(msg.payload.decode())\<close>:
  \<open>None\<close> when that expression raises \<^verbatim>\<open>ValueError\<close> (which includes
  \<^verbatim>\<open>UnicodeDecodeError\<close>), the float otherwise.
\<close>

record msg =
  topic :: string
  payload :: "pyfloat option"

text \<open>\<^verbatim>\<open>str.split(sep)\<close> for a one-character separator.\<close>

fun split_sep :: "char \<Rightarrow> string \<Rightarrow> string list" where
  "split_sep sep [] = [[]]"
| "split_sep sep (c # cs) =
     (if c = sep then [] # split_sep sep cs
      else (case split_sep sep cs of
              [] \<Rightarrow> [[c]]
            | p # ps \<Rightarrow> (c # p) # ps))"

text \<open>\<^verbatim>\<open>msg.topic.split("/")[1]\<close>, which raises \<^verbatim>\<open>IndexError\<close> on a topic without a slash.\<close>

definition topic_room :: "string \<Rightarrow> py_error + string" where
  "topic_room t =
     (let parts = split_sep CHR ''/'' t
      in if 1 < length parts then Inr (parts ! 1) else Inl IndexError)"

text \<open>
  The handler of \<^verbatim>\<open>except (ValueError, IndexError)\<close>. Every statement of the
  \<^verbatim>\<open>try\<close> block that can raise comes before its first assignment, so the handler
  starts from the state the message found.
\<close>

definition on_message_except :: "service \<Rightarrow> msg \<Rightarrow> service" where
  "on_message_except s m =
     (case topic_room (topic m) of
        Inl e \<Rightarrow> s
      | Inr room \<Rightarrow>
          (case dict_get (invalid_counts s) room of
             None \<Rightarrow> s
           | Some c \<Rightarrow>
               (let s1 = s\<lparr>invalid_counts := dict_set (invalid_counts s) room (c + 1)\<rparr>
                in if Invalid_Data_Limit \<le> c + 1
                   then s1\<lparr>sensor_error := dict_set (sensor_error s1) room True\<rparr>
                   else s1)))"

definition on_message :: "service \<Rightarrow> msg \<Rightarrow> service" where
  "on_message s m =
     (case topic_room (topic m) of
        Inl e \<Rightarrow> on_message_except s m
      | Inr room \<Rightarrow>
          (case payload m of
             None \<Rightarrow> on_message_except s m
           | Some temp \<Rightarrow>
               if \<not> in_range temp then on_message_except s m
               else s\<lparr>temperatures := dict_set (temperatures s) room temp,
                      invalid_counts := dict_set (invalid_counts s) room 0,
                      sensor_error := dict_set (sensor_error s) room False\<rparr>))"

section \<open>The backend client\<close>

text \<open>
  The backend is outside the program. It is a parameter: the outcome of the \<open>n\<close>-th HTTP
  attempt the service makes, counted over the whole run. \<open>Ok status\<close> is a response
  that passes \<^verbatim>\<open>raise_for_status\<close>, with the \<^verbatim>\<open>status\<close> entry of its JSON body
  (ignored for a command); the other two are an attempt that raises
  \<^verbatim>\<open>requests.RequestException\<close> and one that raises any other exception.
  \<^verbatim>\<open>time.sleep\<close> changes no state and is left out.
\<close>

datatype response = Ok "string option" | RequestException | OtherException

type_synonym backend = "nat \<Rightarrow> response"

text \<open>
  \<^verbatim>\<open>send_hvac_command\<close>: the loop \<^verbatim>\<open>for attempt in range(API_Rerty_Limit)\<close>, with
  the number of attempts left as the recursion argument. Both \<^verbatim>\<open>except\<close> clauses
  retry.
\<close>

fun send_attempts :: "backend \<Rightarrow> nat \<Rightarrow> string \<Rightarrow> bool \<Rightarrow> service \<Rightarrow> service" where
  "send_attempts b 0 room activate s =
     s\<lparr>api_error := dict_set (api_error s) room True\<rparr>"
| "send_attempts b (Suc n) room activate s =
     (let s1 = s\<lparr>http_log := http_log s @ [Post room activate]\<rparr>
      in case b (length (http_log s)) of
           Ok status \<Rightarrow> s1\<lparr>api_error := dict_set (api_error s1) room False\<rparr>
         | RequestException \<Rightarrow> send_attempts b n room activate s1
         | OtherException \<Rightarrow> send_attempts b n room activate s1)"

definition send_hvac_command :: "backend \<Rightarrow> string \<Rightarrow> bool \<Rightarrow> service \<Rightarrow> service" where
  "send_hvac_command b room activate s = send_attempts b API_Rerty_Limit room activate s"

text \<open>
  \<^verbatim>\<open>poll_hvac_status\<close>: only \<^verbatim>\<open>RequestException\<close> is retried; any other exception
  leaves the loop for the outer handler, which prints and logs and sets no flag.
\<close>

fun poll_attempts :: "backend \<Rightarrow> nat \<Rightarrow> string \<Rightarrow> service \<Rightarrow> service" where
  "poll_attempts b 0 room s =
     s\<lparr>api_error := dict_set (api_error s) room True\<rparr>"
| "poll_attempts b (Suc n) room s =
     (let s1 = s\<lparr>http_log := http_log s @ [Get room]\<rparr>
      in case b (length (http_log s)) of
           Ok status \<Rightarrow>
             s1\<lparr>hvac_active := dict_set (hvac_active s1) room (Some (status = Some ''active'')),
                api_error := dict_set (api_error s1) room False\<rparr>
         | RequestException \<Rightarrow> poll_attempts b n room s1
         | OtherException \<Rightarrow> s1)"

definition poll_hvac_status :: "backend \<Rightarrow> string \<Rightarrow> service \<Rightarrow> service" where
  "poll_hvac_status b room s = poll_attempts b API_Rerty_Limit room s"

section \<open>The control loop of \<^verbatim>\<open>run\<close>\<close>

text \<open>
  The body of \<^verbatim>\<open>for room, temp in temps.items()\<close>. A subscript on a missing key
  raises \<^verbatim>\<open>KeyError\<close>; the three reads (\<open>sensor_error\<close>, \<open>api_error\<close>, and
  \<open>hvac_active\<close> in the debug print) all come before the first assignment.
\<close>

definition control_room :: "backend \<Rightarrow> string \<Rightarrow> pyfloat \<Rightarrow> service \<Rightarrow> py_error + service" where
  "control_room b room temp s =
     (case dict_get (sensor_error s) room of
        None \<Rightarrow> Inl KeyError
      | Some se \<Rightarrow>
          if se then Inr s
          else (case dict_get (api_error s) room of
                  None \<Rightarrow> Inl KeyError
                | Some ae \<Rightarrow>
                    if ae then Inr s
                    else (let should_activate = above_threshold temp
                          in case dict_get (hvac_active s) room of
                               None \<Rightarrow> Inl KeyError
                             | Some active \<Rightarrow>
                                 if should_activate \<and> active \<noteq> Some True then
                                   (let s1 = send_hvac_command b room True s
                                    in Inr (s1\<lparr>hvac_active :=
                                               dict_set (hvac_active s1) room (Some True)\<rparr>))
                                 else if \<not> should_activate \<and> active \<noteq> Some False then
                                   (let s1 = send_hvac_command b room False s
                                    in Inr (s1\<lparr>hvac_active :=
                                               dict_set (hvac_active s1) room (Some False)\<rparr>))
                                 else Inr s)))"

text \<open>
  The \<^verbatim>\<open>for\<close> loop over the copied items. An exception ends the pass (the handler of
  the \<^verbatim>\<open>while\<close> body only logs it); what earlier rooms changed stays changed.
\<close>

fun run_rooms :: "backend \<Rightarrow> (string \<times> pyfloat) list \<Rightarrow> service \<Rightarrow> py_error option \<times> service" where
  "run_rooms b [] s = (None, s)"
| "run_rooms b ((room, temp) # rest) s =
     (case control_room b room temp s of
        Inl e \<Rightarrow> (Some e, s)
      | Inr s' \<Rightarrow> run_rooms b rest s')"

text \<open>One pass of the \<^verbatim>\<open>while True\<close> body: \<^verbatim>\<open>temps = self.temperatures.copy()\<close>, then the loop.\<close>

definition control_cycle :: "backend \<Rightarrow> service \<Rightarrow> py_error option \<times> service" where
  "control_cycle b s = run_rooms b (temperatures s) s"

text \<open>
  The \<^verbatim>\<open>while True\<close> loop never returns; \<open>run_cycles b n\<close> is the state after its
  first \<open>n\<close> passes. The MQTT thread calls \<^verbatim>\<open>on_message\<close> while the loop runs; here a
  call of \<^verbatim>\<open>on_message\<close> and a pass of the loop are steps that do not overlap, and the
  statements below are about one such step or about passes that follow each other.
\<close>

fun run_cycles :: "backend \<Rightarrow> nat \<Rightarrow> service \<Rightarrow> service" where
  "run_cycles b 0 s = s"
| "run_cycles b (Suc n) s = run_cycles b n (snd (control_cycle b s))"

text \<open>The initial polls of \<^verbatim>\<open>run\<close>: \<^verbatim>\<open>for room in ROOMS: self.poll_hvac_status(room)\<close>.\<close>

definition startup :: "backend \<Rightarrow> service \<Rightarrow> service" where
  "startup b s = foldl (\<lambda>s' room. poll_hvac_status b room s') s ROOMS"

subsection \<open>Observations\<close>

text \<open>The requests issued for one room.\<close>

fun request_room :: "request \<Rightarrow> string" where
  "request_room (Get room) = room"
| "request_room (Post room activate) = room"

definition calls_for :: "string \<Rightarrow> service \<Rightarrow> request list" where
  "calls_for room s = filter (\<lambda>q. request_room q = room) (http_log s)"

text \<open>Everything the service holds about one room.\<close>

definition entity :: "service \<Rightarrow> string \<Rightarrow>
    pyfloat option \<times> int option \<times> bool option \<times> bool option \<times> bool option option" where
  "entity s room =
     (dict_get (temperatures s) room, dict_get (invalid_counts s) room,
      dict_get (sensor_error s) room, dict_get (api_error s) room,
      dict_get (hvac_active s) room)"

subsection \<open>Predicates used in the statements\<close>

text \<open>An invalid reading: the payload does not parse, or the value fails the range check.\<close>

definition invalid_reading :: "msg \<Rightarrow> bool" where
  "invalid_reading m = (case payload m of None \<Rightarrow> True | Some v \<Rightarrow> \<not> in_range v)"

text \<open>A message with the given topic and parsed payload.\<close>

definition reading :: "string \<Rightarrow> pyfloat option \<Rightarrow> msg" where
  "reading t p = \<lparr>topic = t, payload = p\<rparr>"

text \<open>An attempt that returns a response passing \<^verbatim>\<open>raise_for_status\<close>.\<close>

fun is_ok :: "response \<Rightarrow> bool" where
  "is_ok (Ok status) = True"
| "is_ok RequestException = False"
| "is_ok OtherException = False"

text \<open>
  The states in which the loop body does nothing for a room: one of its two fault flags
  is set, or its recorded HVAC state already is what the temperature asks for.
\<close>

definition idle :: "string \<Rightarrow> pyfloat \<Rightarrow> service \<Rightarrow> bool" where
  "idle room temp s =
     (dict_get (sensor_error s) room = Some True
      \<or> dict_get (api_error s) room = Some True
      \<or> dict_get (hvac_active s) room = Some (Some (above_threshold temp)))"

text \<open>The three subscripts of the loop body find the room.\<close>

definition has_entries :: "service \<Rightarrow> string \<Rightarrow> bool" where
  "has_entries s room =
     (dict_get (sensor_error s) room \<noteq> None
      \<and> dict_get (api_error s) room \<noteq> None
      \<and> dict_get (hvac_active s) room \<noteq> None)"

subsection \<open>Example backends and states\<close>

text \<open>
  A backend that always answers, reporting the HVAC inactive or active; one whose first
  three attempts fail; one that answers the five startup polls and is down afterwards.
\<close>

definition backend_inactive :: backend where
  "backend_inactive i = Ok (Some ''inactive'')"

definition backend_active :: backend where
  "backend_active i = Ok (Some ''active'')"

definition flaky :: backend where
  "flaky i = (if i < 3 then RequestException else Ok (Some ''active''))"

definition down_after_startup :: backend where
  "down_after_startup i = (if i < 5 then Ok (Some ''inactive'') else RequestException)"

text \<open>
  After a startup that found every HVAC inactive, room1 reports 35 degrees and the
  backend is down.
\<close>

definition hot_room1 :: service where
  "hot_room1 =
     on_message (startup down_after_startup init_service)
       (reading ''building/room1/temperature'' (Some (Fin 35)))"

text \<open>Room1 reports 45 degrees and then three payloads that do not parse.\<close>

definition faulty_room1 :: service where
  "faulty_room1 =
     foldl on_message (startup backend_inactive init_service)
       [reading ''building/room1/temperature'' (Some (Fin 45)),
        reading ''building/room1/temperature'' None,
        reading ''building/room1/temperature'' None,
        reading ''building/room1/temperature'' None]"

text \<open>After a startup that found every HVAC active, room1 reports 35 degrees.\<close>

definition steady_room1 :: service where
  "steady_room1 =
     on_message (startup backend_active init_service)
       (reading ''building/room1/temperature'' (Some (Fin 35)))"

text \<open>A well-formed reading in range, on the topic of a room that is not in \<open>ROOMS\<close>.\<close>

definition unknown_room_reading :: msg where
  "unknown_room_reading = reading ''building/nonexistent/temperature'' (Some (Fin 22))"

section \<open>Dictionary facts\<close>

lemma dict_get_set:
  "dict_get (dict_set d k v) k' = (if k' = k then Some v else dict_get d k')"
  by (induction d) auto

lemma dict_get_in_set:
  assumes "distinct (map fst d)" and "(k, v) \<in> set d"
  shows "dict_get d k = Some v"
  using assms by (induction d) (auto simp: rev_image_eqI)

lemma dict_get_mem:
  assumes "dict_get d k = Some v"
  shows "(k, v) \<in> set d"
  using assms by (induction d) (auto split: if_splits)

lemma dict_keys_set:
  "dict_keys (dict_set d k v) =
     (if k \<in> set (dict_keys d) then dict_keys d else dict_keys d @ [k])"
  by (induction d) (force simp: dict_keys_def)+

section \<open>Concrete inputs\<close>

lemma topic_room2: "topic_room ''building/room2/temperature'' = Inr ''room2''"
  by (simp add: topic_room_def)

lemma topic_room1: "topic_room ''building/room1/temperature'' = Inr ''room1''"
  by (simp add: topic_room_def)

lemmas init_simps = init_service_def from_keys_def ROOMS_def

section \<open>Ingestion\<close>

lemma on_message_invalid:
  assumes "invalid_reading m"
  shows "on_message s m = on_message_except s m"
  using assms by (auto simp: on_message_def invalid_reading_def split: sum.splits option.splits)

lemma on_message_except_known:
  assumes "topic_room (topic m) = Inr r" and "dict_get (invalid_counts s) r = Some c"
  shows "temperatures (on_message_except s m) = temperatures s"
    and "dict_get (invalid_counts (on_message_except s m)) r = Some (c + 1)"
    and "Invalid_Data_Limit \<le> c + 1 \<Longrightarrow> dict_get (sensor_error (on_message_except s m)) r = Some True"
  using assms by (simp_all add: on_message_except_def Let_def dict_get_set)

lemma invalid_run_count:
  assumes "\<forall>m \<in> set ms. topic_room (topic m) = Inr r \<and> invalid_reading m"
    and "dict_get (invalid_counts s) r = Some c"
  shows "dict_get (invalid_counts (foldl on_message s ms)) r = Some (c + int (length ms))"
  using assms
proof (induction ms arbitrary: s c)
  case Nil
  then show ?case by simp
next
  case (Cons m ms)
  have m: "topic_room (topic m) = Inr r" "invalid_reading m" using Cons.prems(1) by auto
  have step: "dict_get (invalid_counts (on_message s m)) r = Some (c + 1)"
    using on_message_except_known(2)[OF m(1) Cons.prems(2)] by (simp add: on_message_invalid[OF m(2)])
  have "dict_get (invalid_counts (foldl on_message (on_message s m) ms)) r = Some (c + 1 + int (length ms))"
    using Cons.IH[OF _ step] Cons.prems(1) by simp
  then show ?case by (simp add: add.assoc)
qed

lemma invalid_run_fault:
  assumes "\<forall>m \<in> set ms. topic_room (topic m) = Inr r \<and> invalid_reading m"
    and "dict_get (invalid_counts s) r = Some c"
    and "ms \<noteq> []" and "Invalid_Data_Limit \<le> c + int (length ms)"
  shows "dict_get (sensor_error (foldl on_message s ms)) r = Some True"
proof -
  obtain ms' m where ms: "ms = ms' @ [m]"
    using assms(3) by (meson rev_exhaust)
  let ?s = "foldl on_message s ms'"
  have m: "topic_room (topic m) = Inr r" "invalid_reading m" using assms(1) ms by auto
  have cnt: "dict_get (invalid_counts ?s) r = Some (c + int (length ms'))"
    using invalid_run_count[of ms' r s c] assms(1,2) ms by simp
  have "Invalid_Data_Limit \<le> c + int (length ms') + 1"
    using assms(4) ms by simp
  from on_message_except_known(3)[OF m(1) cnt this]
  show ?thesis by (simp add: ms on_message_invalid[OF m(2)])
qed

text \<open>
  Claim C7. For a room that \<open>invalid_counts\<close> knows, a reading whose payload does not
  parse as a float, or parses to a value outside \<open>[0, 50]\<close>, leaves the stored
  temperatures as they were and raises the room's invalid count by exactly one; the
  out-of-range reading has the same effect as the reading that does not parse.
\<close>

theorem invalid_reading_counted:
  assumes "topic_room (topic m) = Inr r"
    and "dict_get (invalid_counts s) r = Some c"
    and "payload m = None \<or> (\<exists>v. payload m = Some v \<and> \<not> in_range v)"
  shows "temperatures (on_message s m) = temperatures s
       \<and> dict_get (invalid_counts (on_message s m)) r = Some (c + 1)
       \<and> on_message s m = on_message s (m\<lparr>payload := None\<rparr>)"
proof -
  have inv: "invalid_reading m"
    using assms(3) by (auto simp: invalid_reading_def)
  have none: "invalid_reading (m\<lparr>payload := None\<rparr>)"
    by (simp add: invalid_reading_def)
  have same: "on_message_except s (m\<lparr>payload := None\<rparr>) = on_message_except s m"
    by (simp add: on_message_except_def)
  show ?thesis
    using on_message_except_known(1,2)[OF assms(1,2)]
    by (simp add: on_message_invalid[OF inv] on_message_invalid[OF none] same)
qed

theorem invalid_reading_counted_witness:
  "topic_room (topic (reading ''building/room2/temperature'' (Some (Fin 60)))) = Inr ''room2''
   \<and> dict_get (invalid_counts init_service) ''room2'' = Some 0
   \<and> \<not> in_range (Fin 60)
   \<and> temperatures (on_message init_service (reading ''building/room2/temperature'' (Some (Fin 60))))
       = temperatures init_service
   \<and> dict_get (invalid_counts
        (on_message init_service (reading ''building/room2/temperature'' (Some (Fin 60))))) ''room2''
       = Some 1"
proof -
  let ?m = "reading ''building/room2/temperature'' (Some (Fin 60))"
  have h1: "topic_room (topic ?m) = Inr ''room2''"
    by (simp add: reading_def topic_room2)
  have h2: "dict_get (invalid_counts init_service) ''room2'' = Some 0"
    by (simp add: init_simps)
  have h3: "payload ?m = None \<or> (\<exists>v. payload ?m = Some v \<and> \<not> in_range v)"
    by (simp add: reading_def)
  have "temperatures (on_message init_service ?m) = temperatures init_service
      \<and> dict_get (invalid_counts (on_message init_service ?m)) ''room2'' = Some (0 + 1)"
    using invalid_reading_counted[OF h1 h2 h3] by blast
  then show ?thesis
    using h1 h2 by simp
qed

text \<open>
  Claim C8. A valid reading addressed to room \<open>x\<close> leaves all five entries of every
  other room \<open>y\<close> (temperature, invalid count, sensor error, API error, HVAC state)
  unchanged.
\<close>

theorem valid_reading_isolated:
  assumes "topic_room (topic m) = Inr x" and "payload m = Some t" and "in_range t"
    and "y \<noteq> x"
  shows "entity (on_message s m) y = entity s y"
  using assms by (simp add: on_message_def entity_def dict_get_set)

theorem valid_reading_isolated_witness:
  "topic_room (topic (reading ''building/room1/temperature'' (Some (Fin 31.5)))) = Inr ''room1''
   \<and> in_range (Fin 31.5) \<and> ''room2'' \<noteq> ''room1''
   \<and> entity (on_message init_service (reading ''building/room1/temperature'' (Some (Fin 31.5)))) ''room2''
       = entity init_service ''room2''"
proof -
  let ?m = "reading ''building/room1/temperature'' (Some (Fin 31.5))"
  have h1: "topic_room (topic ?m) = Inr ''room1''"
    by (simp add: reading_def topic_room1)
  have h2: "payload ?m = Some (Fin 31.5)"
    by (simp add: reading_def)
  have h3: "in_range (Fin 31.5)" by simp
  have h4: "''room2'' \<noteq> ''room1''" by simp
  show ?thesis
    using valid_reading_isolated[OF h1 h2 h3 h4] h1 h3 by simp
qed

text \<open>
  Claim C3. Starting from an invalid count of 0 (the value a valid reading leaves),
  \<open>Invalid_Data_Limit\<close> consecutive invalid readings for a room set its sensor error;
  the next valid reading for the room clears the sensor error and resets the count to 0.
\<close>

theorem sensor_fault_set_and_cleared:
  assumes "\<forall>m \<in> set ms. topic_room (topic m) = Inr r \<and> invalid_reading m"
    and "int (length ms) = Invalid_Data_Limit"
    and "dict_get (invalid_counts s) r = Some 0"
    and "topic_room (topic v) = Inr r" and "payload v = Some t" and "in_range t"
  shows "dict_get (sensor_error (foldl on_message s ms)) r = Some True
       \<and> dict_get (sensor_error (on_message (foldl on_message s ms) v)) r = Some False
       \<and> dict_get (invalid_counts (on_message (foldl on_message s ms) v)) r = Some 0"
proof -
  have "ms \<noteq> []" using assms(2) by (auto simp: Invalid_Data_Limit_def)
  then have "dict_get (sensor_error (foldl on_message s ms)) r = Some True"
    using invalid_run_fault[OF assms(1) assms(3)] assms(2) by simp
  moreover have "dict_get (sensor_error (on_message s' v)) r = Some False
       \<and> dict_get (invalid_counts (on_message s' v)) r = Some 0" for s'
    using assms(4-6) by (simp add: on_message_def dict_get_set)
  ultimately show ?thesis by simp
qed

theorem sensor_fault_set_and_cleared_witness:
  "dict_get (invalid_counts init_service) ''room2'' = Some 0
   \<and> dict_get (sensor_error
        (foldl on_message init_service
           [reading ''building/room2/temperature'' None,
            reading ''building/room2/temperature'' (Some (Fin 60)),
            reading ''building/room2/temperature'' (Some NaN)])) ''room2'' = Some True
   \<and> dict_get (sensor_error
        (on_message
           (foldl on_message init_service
              [reading ''building/room2/temperature'' None,
               reading ''building/room2/temperature'' (Some (Fin 60)),
               reading ''building/room2/temperature'' (Some NaN)])
           (reading ''building/room2/temperature'' (Some (Fin 22))))) ''room2'' = Some False"
proof -
  let ?ms = "[reading ''building/room2/temperature'' None,
            reading ''building/room2/temperature'' (Some (Fin 60)),
            reading ''building/room2/temperature'' (Some NaN)]"
  let ?v = "reading ''building/room2/temperature'' (Some (Fin 22))"
  have h1: "\<forall>m \<in> set ?ms. topic_room (topic m) = Inr ''room2'' \<and> invalid_reading m"
    by (simp add: reading_def topic_room2 invalid_reading_def)
  have h2: "int (length ?ms) = Invalid_Data_Limit"
    by (simp add: Invalid_Data_Limit_def)
  have h3: "dict_get (invalid_counts init_service) ''room2'' = Some 0"
    by (simp add: init_simps)
  have h4: "topic_room (topic ?v) = Inr ''room2''"
    by (simp add: reading_def topic_room2)
  have h5: "payload ?v = Some (Fin 22)"
    by (simp add: reading_def)
  have h6: "in_range (Fin 22)" by simp
  show ?thesis
    using sensor_fault_set_and_cleared[OF h1 h2 h3 h4 h5 h6] h3 by simp
qed

section \<open>Backend client\<close>

lemma send_attempts_shape:
  "\<exists>k v. k \<le> n \<and> (0 < n \<longrightarrow> 0 < k) \<and>
     send_attempts b n room act s =
       s\<lparr>api_error := dict_set (api_error s) room v,
         http_log := http_log s @ replicate k (Post room act)\<rparr>"
proof (induction n arbitrary: s)
  case 0
  show ?case by (rule exI[of _ 0], rule exI[of _ True]) simp
next
  case (Suc n)
  let ?s1 = "s\<lparr>http_log := http_log s @ [Post room act]\<rparr>"
  show ?case
  proof (cases "b (length (http_log s))")
    case (Ok status)
    show ?thesis
      by (rule exI[of _ 1], rule exI[of _ False]) (simp add: Ok)
  next
    case RequestException
    from Suc.IH[of ?s1] obtain k v where
      kv: "k \<le> n" "send_attempts b n room act ?s1 =
          ?s1\<lparr>api_error := dict_set (api_error ?s1) room v,
            http_log := http_log ?s1 @ replicate k (Post room act)\<rparr>"
      by blast
    show ?thesis
      by (rule exI[of _ "Suc k"], rule exI[of _ v]) (simp add: RequestException kv)
  next
    case OtherException
    from Suc.IH[of ?s1] obtain k v where
      kv: "k \<le> n" "send_attempts b n room act ?s1 =
          ?s1\<lparr>api_error := dict_set (api_error ?s1) room v,
            http_log := http_log ?s1 @ replicate k (Post room act)\<rparr>"
      by blast
    show ?thesis
      by (rule exI[of _ "Suc k"], rule exI[of _ v]) (simp add: OtherException kv)
  qed
qed

lemma send_attempts_exhaust:
  assumes "\<forall>i<n. \<not> is_ok (b (length (http_log s) + i))"
  shows "send_attempts b n room act s =
       s\<lparr>api_error := dict_set (api_error s) room True,
         http_log := http_log s @ replicate n (Post room act)\<rparr>"
  using assms
proof (induction n arbitrary: s)
  case 0
  show ?case by simp
next
  case (Suc n)
  let ?s1 = "s\<lparr>http_log := http_log s @ [Post room act]\<rparr>"
  have first: "\<not> is_ok (b (length (http_log s)))"
    using Suc.prems by force
  have later: "\<forall>i<n. \<not> is_ok (b (length (http_log ?s1) + i))"
  proof (intro allI impI)
    fix i assume "i < n"
    then have "\<not> is_ok (b (length (http_log s) + Suc i))" using Suc.prems by blast
    then show "\<not> is_ok (b (length (http_log ?s1) + i))" by simp
  qed
  show ?case
    using first Suc.IH[OF later]
    by (cases "b (length (http_log s))") (simp_all add: replicate_app_Cons_same)
qed

lemma send_attempts_success:
  assumes "\<exists>i<n. is_ok (b (length (http_log s) + i))"
  shows "dict_get (api_error (send_attempts b n room act s)) room = Some False"
  using assms
proof (induction n arbitrary: s)
  case 0
  then show ?case by simp
next
  case (Suc n)
  let ?s1 = "s\<lparr>http_log := http_log s @ [Post room act]\<rparr>"
  show ?case
  proof (cases "is_ok (b (length (http_log s)))")
    case True
    then show ?thesis
      by (cases "b (length (http_log s))") (simp_all add: dict_get_set)
  next
    case False
    from Suc.prems obtain i where i: "i < Suc n" "is_ok (b (length (http_log s) + i))"
      by blast
    with False have "i \<noteq> 0" by (cases i) auto
    then obtain j where j: "i = Suc j" by (cases i) auto
    have "\<exists>i<n. is_ok (b (length (http_log ?s1) + i))"
      using i j by (intro exI[of _ j]) simp
    from Suc.IH[OF this] False show ?thesis
      by (cases "b (length (http_log s))") simp_all
  qed
qed

lemma poll_attempts_exhaust:
  assumes "\<forall>i<n. b (length (http_log s) + i) = RequestException"
  shows "poll_attempts b n room s =
       s\<lparr>api_error := dict_set (api_error s) room True,
         http_log := http_log s @ replicate n (Get room)\<rparr>"
  using assms
proof (induction n arbitrary: s)
  case 0
  show ?case by simp
next
  case (Suc n)
  let ?s1 = "s\<lparr>http_log := http_log s @ [Get room]\<rparr>"
  have first: "b (length (http_log s)) = RequestException"
    using Suc.prems by force
  have later: "\<forall>i<n. b (length (http_log ?s1) + i) = RequestException"
  proof (intro allI impI)
    fix i assume "i < n"
    then have "b (length (http_log s) + Suc i) = RequestException" using Suc.prems by blast
    then show "b (length (http_log ?s1) + i) = RequestException" by simp
  qed
  show ?case
    using first Suc.IH[OF later]
    by (simp add: replicate_app_Cons_same)
qed

lemma poll_attempts_success:
  assumes "\<exists>i<n. is_ok (b (length (http_log s) + i))
             \<and> (\<forall>j<i. b (length (http_log s) + j) = RequestException)"
  shows "dict_get (api_error (poll_attempts b n room s)) room = Some False"
  using assms
proof (induction n arbitrary: s)
  case 0
  then show ?case by simp
next
  case (Suc n)
  let ?s1 = "s\<lparr>http_log := http_log s @ [Get room]\<rparr>"
  from Suc.prems obtain i where i: "i < Suc n" "is_ok (b (length (http_log s) + i))"
      "\<forall>j<i. b (length (http_log s) + j) = RequestException"
    by blast
  show ?case
  proof (cases i)
    case 0
    with i(2) show ?thesis
      by (cases "b (length (http_log s))") (simp_all add: dict_get_set)
  next
    case (Suc j)
    have first: "b (length (http_log s)) = RequestException"
      using i(3) Suc by force
    have "\<exists>i<n. is_ok (b (length (http_log ?s1) + i))
             \<and> (\<forall>j<i. b (length (http_log ?s1) + j) = RequestException)"
    proof (intro exI[of _ j] conjI allI impI)
      show "j < n" using i(1) Suc by simp
      show "is_ok (b (length (http_log ?s1) + j))" using i(2) Suc by simp
      fix j' assume "j' < j"
      then have "Suc j' < i" using Suc by simp
      then have "b (length (http_log s) + Suc j') = RequestException" using i(3) by blast
      then show "b (length (http_log ?s1) + j') = RequestException" by simp
    qed
    from Suc.IH[OF this] first show ?thesis by simp
  qed
qed

text \<open>
  Claim C4. When all \<open>API_Rerty_Limit\<close> attempts of \<open>send_hvac_command\<close> fail, or all
  attempts of \<open>poll_hvac_status\<close> raise \<^verbatim>\<open>RequestException\<close>, the room's API error is
  set and no entry of any other room changes; the exhausted poll also leaves the room's
  HVAC state as it was. A later call for the room (from any state \<open>s2\<close>) in which an
  attempt succeeds sets the room's API error back to \<open>False\<close>.
\<close>

theorem backend_fault_set_and_cleared:
  "((\<forall>i<API_Rerty_Limit. \<not> is_ok (b (length (http_log s) + i))) \<longrightarrow>
      dict_get (api_error (send_hvac_command b r a s)) r = Some True
      \<and> (\<forall>q. q \<noteq> r \<longrightarrow> entity (send_hvac_command b r a s) q = entity s q))
   \<and> ((\<forall>i<API_Rerty_Limit. b (length (http_log s) + i) = RequestException) \<longrightarrow>
      dict_get (api_error (poll_hvac_status b r s)) r = Some True
      \<and> dict_get (hvac_active (poll_hvac_status b r s)) r = dict_get (hvac_active s) r
      \<and> (\<forall>q. q \<noteq> r \<longrightarrow> entity (poll_hvac_status b r s) q = entity s q))
   \<and> ((\<exists>i<API_Rerty_Limit. is_ok (b (length (http_log s2) + i))) \<longrightarrow>
      dict_get (api_error (send_hvac_command b r a s2)) r = Some False)
   \<and> ((\<exists>i<API_Rerty_Limit. is_ok (b (length (http_log s2) + i))
          \<and> (\<forall>j<i. b (length (http_log s2) + j) = RequestException)) \<longrightarrow>
      dict_get (api_error (poll_hvac_status b r s2)) r = Some False)"
proof (intro conjI impI)
  assume "\<forall>i<API_Rerty_Limit. \<not> is_ok (b (length (http_log s) + i))"
  from send_attempts_exhaust[OF this]
  show "dict_get (api_error (send_hvac_command b r a s)) r = Some True"
    and "\<forall>q. q \<noteq> r \<longrightarrow> entity (send_hvac_command b r a s) q = entity s q"
    by (simp_all add: send_hvac_command_def dict_get_set entity_def)
next
  assume "\<forall>i<API_Rerty_Limit. b (length (http_log s) + i) = RequestException"
  from poll_attempts_exhaust[OF this]
  show "dict_get (api_error (poll_hvac_status b r s)) r = Some True"
    and "dict_get (hvac_active (poll_hvac_status b r s)) r = dict_get (hvac_active s) r"
    and "\<forall>q. q \<noteq> r \<longrightarrow> entity (poll_hvac_status b r s) q = entity s q"
    by (simp_all add: poll_hvac_status_def dict_get_set entity_def)
next
  assume "\<exists>i<API_Rerty_Limit. is_ok (b (length (http_log s2) + i))"
  from send_attempts_success[OF this]
  show "dict_get (api_error (send_hvac_command b r a s2)) r = Some False"
    by (simp add: send_hvac_command_def)
next
  assume "\<exists>i<API_Rerty_Limit. is_ok (b (length (http_log s2) + i))
          \<and> (\<forall>j<i. b (length (http_log s2) + j) = RequestException)"
  from poll_attempts_success[OF this]
  show "dict_get (api_error (poll_hvac_status b r s2)) r = Some False"
    by (simp add: poll_hvac_status_def)
qed

theorem backend_fault_set_and_cleared_witness:
  "flaky (length (http_log init_service)) = RequestException
   \<and> flaky (length (http_log init_service) + 1) = RequestException
   \<and> flaky (length (http_log init_service) + 2) = RequestException
   \<and> dict_get (api_error (send_hvac_command flaky ''room1'' True init_service)) ''room1'' = Some True
   \<and> dict_get (api_error (poll_hvac_status flaky ''room1'' init_service)) ''room1'' = Some True
   \<and> is_ok (flaky (length (http_log (send_hvac_command flaky ''room1'' True init_service))))
   \<and> dict_get (api_error (send_hvac_command flaky ''room1'' True
        (send_hvac_command flaky ''room1'' True init_service))) ''room1'' = Some False
   \<and> dict_get (api_error (poll_hvac_status flaky ''room1''
        (send_hvac_command flaky ''room1'' True init_service))) ''room1'' = Some False"
proof -
  let ?s2 = "send_hvac_command flaky ''room1'' True init_service"
  have h2: "\<forall>i<API_Rerty_Limit. flaky (length (http_log init_service) + i) = RequestException"
    by (simp add: flaky_def API_Rerty_Limit_def init_simps)
  then have h1: "\<forall>i<API_Rerty_Limit. \<not> is_ok (flaky (length (http_log init_service) + i))"
    by simp
  have fl: "flaky (length (http_log init_service)) = RequestException"
      "flaky (length (http_log init_service) + 1) = RequestException"
      "flaky (length (http_log init_service) + 2) = RequestException"
    by (simp_all add: flaky_def init_simps)
  have len: "length (http_log ?s2) = 3"
    by (simp add: send_hvac_command_def API_Rerty_Limit_def flaky_def init_simps eval_nat_numeral)
  have ok: "is_ok (flaky (length (http_log ?s2)))"
    by (simp add: len flaky_def)
  have h3: "\<exists>i<API_Rerty_Limit. is_ok (flaky (length (http_log ?s2) + i))"
    using ok by (intro exI[of _ 0]) (simp add: API_Rerty_Limit_def)
  have h4: "\<exists>i<API_Rerty_Limit. is_ok (flaky (length (http_log ?s2) + i))
          \<and> (\<forall>j<i. flaky (length (http_log ?s2) + j) = RequestException)"
    using ok by (intro exI[of _ 0]) (simp add: API_Rerty_Limit_def)
  show ?thesis
    using backend_fault_set_and_cleared[of flaky init_service "''room1''" True ?s2] h1 h2 h3 h4 ok fl
    by blast
qed

section \<open>Control loop\<close>

lemma control_room_cases:
  assumes "control_room b room t s = Inr s'"
  shows "s' = s
     \<or> (\<exists>k v. 0 < k \<and> k \<le> API_Rerty_Limit
          \<and> dict_get (api_error s) room = Some False
          \<and> s' = s\<lparr>api_error := dict_set (api_error s) room v,
                   http_log := http_log s @ replicate k (Post room (above_threshold t)),
                   hvac_active := dict_set (hvac_active s) room (Some (above_threshold t))\<rparr>)"
proof -
  have lim: "0 < API_Rerty_Limit" by (simp add: API_Rerty_Limit_def)
  obtain k v where kv: "k \<le> API_Rerty_Limit" "0 < k"
      "send_hvac_command b room (above_threshold t) s =
         s\<lparr>api_error := dict_set (api_error s) room v,
           http_log := http_log s @ replicate k (Post room (above_threshold t))\<rparr>"
    using send_attempts_shape[of API_Rerty_Limit b room "above_threshold t" s] lim
    unfolding send_hvac_command_def by blast
  show ?thesis
    using assms kv
    by (cases "above_threshold t")
       (auto simp: control_room_def Let_def split: option.splits if_splits)
qed

lemma control_room_idle:
  assumes "idle room t s" and "control_room b room t s = Inr s'"
  shows "s' = s"
  using assms
  by (cases "above_threshold t")
     (auto simp: control_room_def idle_def Let_def split: option.splits if_splits)

lemma control_room_acts:
  assumes "dict_get (sensor_error s) room = Some False"
    and "dict_get (api_error s) room = Some False"
    and "dict_get (hvac_active s) room = Some h"
    and "h \<noteq> Some (above_threshold t)"
  shows "\<exists>k v. 0 < k \<and> k \<le> API_Rerty_Limit
          \<and> control_room b room t s =
              Inr (s\<lparr>api_error := dict_set (api_error s) room v,
                   http_log := http_log s @ replicate k (Post room (above_threshold t)),
                   hvac_active := dict_set (hvac_active s) room (Some (above_threshold t))\<rparr>)"
proof -
  have lim: "0 < API_Rerty_Limit" by (simp add: API_Rerty_Limit_def)
  obtain k v where kv: "k \<le> API_Rerty_Limit" "0 < k"
      "send_hvac_command b room (above_threshold t) s =
         s\<lparr>api_error := dict_set (api_error s) room v,
           http_log := http_log s @ replicate k (Post room (above_threshold t))\<rparr>"
    using send_attempts_shape[of API_Rerty_Limit b room "above_threshold t" s] lim
    unfolding send_hvac_command_def by blast
  show ?thesis
    using assms kv
    by (cases "above_threshold t") (auto simp: control_room_def Let_def)
qed

lemma control_room_other:
  assumes "control_room b room t s = Inr s'" and "q \<noteq> room"
  shows "entity s' q = entity s q" and "calls_for q s' = calls_for q s"
    and "has_entries s q \<Longrightarrow> has_entries s' q"
  using control_room_cases[OF assms(1)] assms(2)
  by (auto simp: entity_def calls_for_def has_entries_def dict_get_set)

lemma control_room_has_entries:
  assumes "control_room b room t s = Inr s'" and "has_entries s q"
  shows "has_entries s' q"
  using control_room_cases[OF assms(1)] assms(2)
  by (auto simp: has_entries_def dict_get_set)

lemma control_room_no_key_error:
  assumes "has_entries s room"
  shows "\<exists>s'. control_room b room t s = Inr s'"
  using assms
  by (auto simp: control_room_def has_entries_def Let_def)

lemma idle_entity:
  assumes "entity s1 r = entity s r"
  shows "idle r t s1 = idle r t s"
  using assms by (simp add: entity_def idle_def)

lemma run_rooms_idle:
  assumes "\<forall>t. (r, t) \<in> set items \<longrightarrow> idle r t s"
    and "run_rooms b items s = (e, s')"
  shows "entity s' r = entity s r \<and> calls_for r s' = calls_for r s"
  using assms
proof (induction items arbitrary: s)
  case Nil
  then show ?case by simp
next
  case (Cons item items)
  obtain q t where item: "item = (q, t)" by (cases item)
  show ?case
  proof (cases "control_room b q t s")
    case (Inl err)
    with Cons.prems(2) item show ?thesis by simp
  next
    case (Inr s1)
    have rest: "run_rooms b items s1 = (e, s')"
      using Cons.prems(2) item Inr by simp
    have same: "entity s1 r = entity s r \<and> calls_for r s1 = calls_for r s"
    proof (cases "q = r")
      case True
      then have "idle q t s" using Cons.prems(1) item by simp
      from control_room_idle[OF this Inr] show ?thesis by simp
    next
      case False
      then show ?thesis using control_room_other(1,2)[OF Inr, of r] by simp
    qed
    have "\<forall>t. (r, t) \<in> set items \<longrightarrow> idle r t s1"
      using Cons.prems(1) idle_entity[of s1 r s] same by simp
    from Cons.IH[OF this rest] same show ?thesis by simp
  qed
qed

lemma run_rooms_other:
  assumes "r \<notin> fst ` set items" and "run_rooms b items s = (e, s')"
  shows "entity s' r = entity s r" and "calls_for r s' = calls_for r s"
proof -
  have "\<forall>t. (r, t) \<in> set items \<longrightarrow> idle r t s"
    using assms(1) by (force simp: image_iff)
  from run_rooms_idle[OF this assms(2)]
  show "entity s' r = entity s r" and "calls_for r s' = calls_for r s" by simp_all
qed

lemma run_rooms_acts:
  assumes "distinct (map fst items)" and "(r, t) \<in> set items"
    and "\<forall>q \<in> fst ` set items. has_entries s q"
    and "dict_get (sensor_error s) r = Some False"
    and "dict_get (api_error s) r = Some False"
    and "dict_get (hvac_active s) r = Some h"
    and "h \<noteq> Some (above_threshold t)"
    and "run_rooms b items s = (e, s')"
  shows "\<exists>k. 0 < k \<and> k \<le> API_Rerty_Limit
        \<and> calls_for r s' = calls_for r s @ replicate k (Post r (above_threshold t))
        \<and> dict_get (hvac_active s') r = Some (Some (above_threshold t))"
  using assms
proof (induction items arbitrary: s)
  case Nil
  then show ?case by simp
next
  case (Cons item items)
  obtain q t0 where item: "item = (q, t0)" by (cases item)
  show ?case
  proof (cases "q = r")
    case True
    have t0: "t0 = t"
      using Cons.prems(1,2) item True by (force simp: image_iff)
    have notin: "r \<notin> fst ` set items"
      using Cons.prems(1) item True by simp
    from control_room_acts[OF Cons.prems(4,5,6,7), of b]
    obtain k v where kv: "0 < k" "k \<le> API_Rerty_Limit"
        "control_room b r t s =
           Inr (s\<lparr>api_error := dict_set (api_error s) r v,
                 http_log := http_log s @ replicate k (Post r (above_threshold t)),
                 hvac_active := dict_set (hvac_active s) r (Some (above_threshold t))\<rparr>)"
      by blast
    let ?s1 = "s\<lparr>api_error := dict_set (api_error s) r v,
                 http_log := http_log s @ replicate k (Post r (above_threshold t)),
                 hvac_active := dict_set (hvac_active s) r (Some (above_threshold t))\<rparr>"
    have rest: "run_rooms b items ?s1 = (e, s')"
      using Cons.prems(8) item True t0 kv(3) by simp
    from run_rooms_other[OF notin rest]
    have "dict_get (hvac_active s') r = Some (Some (above_threshold t))"
      and "calls_for r s' = calls_for r s @ replicate k (Post r (above_threshold t))"
      by (simp_all add: entity_def calls_for_def dict_get_set)
    with kv(1,2) show ?thesis by blast
  next
    case False
    have "has_entries s q" using Cons.prems(3) item by simp
    then obtain s1 where s1: "control_room b q t0 s = Inr s1"
      using control_room_no_key_error by blast
    have rest: "run_rooms b items s1 = (e, s')"
      using Cons.prems(8) item s1 by simp
    have same: "entity s1 r = entity s r" "calls_for r s1 = calls_for r s"
      using control_room_other(1,2)[OF s1, of r] False by simp_all
    have mem: "(r, t) \<in> set items" using Cons.prems(2) item False by simp
    have ent: "\<forall>q \<in> fst ` set items. has_entries s1 q"
      using Cons.prems(3) control_room_has_entries[OF s1] by simp
    have d: "distinct (map fst items)" using Cons.prems(1) by simp
    have f: "dict_get (sensor_error s1) r = Some False"
        "dict_get (api_error s1) r = Some False"
        "dict_get (hvac_active s1) r = Some h"
      using same(1) Cons.prems(4,5,6) by (simp_all add: entity_def)
    from Cons.IH[OF d mem ent f Cons.prems(7) rest] same(2)
    show ?thesis by simp
  qed
qed


text \<open>
  Claim C5. For a room whose sensor error or API error is set, a pass of the control
  loop issues no backend request for the room and leaves its recorded HVAC state
  unchanged, whatever the temperatures are.
\<close>

theorem faulted_room_skipped:
  assumes "dict_get (sensor_error s) r = Some True \<or> dict_get (api_error s) r = Some True"
  shows "calls_for r (snd (control_cycle b s)) = calls_for r s
       \<and> dict_get (hvac_active (snd (control_cycle b s))) r = dict_get (hvac_active s) r"
proof -
  have "\<forall>t. (r, t) \<in> set (temperatures s) \<longrightarrow> idle r t s"
    using assms by (auto simp: idle_def)
  from run_rooms_idle[OF this, of b "fst (control_cycle b s)" "snd (control_cycle b s)"]
  show ?thesis by (simp add: control_cycle_def entity_def)
qed

theorem faulted_room_skipped_witness:
  "dict_get (sensor_error faulty_room1) ''room1'' = Some True
   \<and> dict_get (temperatures faulty_room1) ''room1'' = Some (Fin 45)
   \<and> calls_for ''room1'' (snd (control_cycle backend_inactive faulty_room1))
       = calls_for ''room1'' faulty_room1
   \<and> dict_get (hvac_active (snd (control_cycle backend_inactive faulty_room1))) ''room1''
       = dict_get (hvac_active faulty_room1) ''room1''"
proof -
  have h1: "dict_get (sensor_error faulty_room1) ''room1'' = Some True" by code_simp
  have h2: "dict_get (temperatures faulty_room1) ''room1'' = Some (Fin 45)" by code_simp
  have h: "dict_get (sensor_error faulty_room1) ''room1'' = Some True
      \<or> dict_get (api_error faulty_room1) ''room1'' = Some True"
    using h1 by simp
  show ?thesis
    using faulted_room_skipped[OF h, of backend_inactive] h1 h2 by simp
qed

text \<open>
  Claim C6. For a room without faults whose recorded HVAC state already equals
  \<^verbatim>\<open>temp > 30\<close> for its temperature, a pass of the control loop issues no backend
  request for the room and leaves all its entries unchanged. The keys of a Python dict
  are distinct, which is the first hypothesis.
\<close>

theorem steady_state_no_calls:
  assumes "distinct (dict_keys (temperatures s))"
    and "dict_get (temperatures s) r = Some t"
    and "dict_get (sensor_error s) r = Some False"
    and "dict_get (api_error s) r = Some False"
    and "dict_get (hvac_active s) r = Some (Some (above_threshold t))"
  shows "calls_for r (snd (control_cycle b s)) = calls_for r s
       \<and> entity (snd (control_cycle b s)) r = entity s r"
proof -
  have "\<forall>t'. (r, t') \<in> set (temperatures s) \<longrightarrow> idle r t' s"
  proof (intro allI impI)
    fix t' assume "(r, t') \<in> set (temperatures s)"
    then have "dict_get (temperatures s) r = Some t'"
      using assms(1) by (simp add: dict_keys_def dict_get_in_set)
    then have "t' = t" using assms(2) by simp
    then show "idle r t' s" using assms(5) by (simp add: idle_def)
  qed
  from run_rooms_idle[OF this, of b "fst (control_cycle b s)" "snd (control_cycle b s)"]
  show ?thesis by (simp add: control_cycle_def)
qed

theorem steady_state_no_calls_witness:
  "distinct (dict_keys (temperatures steady_room1))
   \<and> dict_get (temperatures steady_room1) ''room1'' = Some (Fin 35)
   \<and> dict_get (sensor_error steady_room1) ''room1'' = Some False
   \<and> dict_get (api_error steady_room1) ''room1'' = Some False
   \<and> dict_get (hvac_active steady_room1) ''room1'' = Some (Some True)
   \<and> calls_for ''room1'' (snd (control_cycle backend_active steady_room1))
       = calls_for ''room1'' steady_room1
   \<and> entity (snd (control_cycle backend_active steady_room1)) ''room1''
       = entity steady_room1 ''room1''"
proof -
  have h1: "distinct (dict_keys (temperatures steady_room1))" by code_simp
  have h2: "dict_get (temperatures steady_room1) ''room1'' = Some (Fin 35)" by code_simp
  have h3: "dict_get (sensor_error steady_room1) ''room1'' = Some False" by code_simp
  have h4: "dict_get (api_error steady_room1) ''room1'' = Some False" by code_simp
  have h5: "dict_get (hvac_active steady_room1) ''room1'' = Some (Some (above_threshold (Fin 35)))"
    by code_simp
  show ?thesis
    using steady_state_no_calls[OF h1 h2 h3 h4 h5, of backend_active] h1 h2 h3 h4 h5
    by simp
qed

text \<open>
  Claim C10. Once a room's API error is set, it stays set over any number of passes of
  the control loop, and none of these passes issues a backend request for the room.
\<close>

theorem backend_fault_never_cleared_by_loop:
  assumes "dict_get (api_error s) r = Some True"
  shows "dict_get (api_error (run_cycles b n s)) r = Some True
       \<and> calls_for r (run_cycles b n s) = calls_for r s"
  using assms
proof (induction n arbitrary: s)
  case 0
  then show ?case by simp
next
  case (Suc n)
  let ?s1 = "snd (control_cycle b s)"
  have "\<forall>t. (r, t) \<in> set (temperatures s) \<longrightarrow> idle r t s"
    using Suc.prems by (simp add: idle_def)
  from run_rooms_idle[OF this, of b "fst (control_cycle b s)" ?s1]
  have same: "entity ?s1 r = entity s r" "calls_for r ?s1 = calls_for r s"
    by (simp_all add: control_cycle_def)
  then have "dict_get (api_error ?s1) r = Some True"
    using Suc.prems by (simp add: entity_def)
  from Suc.IH[OF this] same(2) show ?case by simp
qed

theorem backend_fault_never_cleared_by_loop_witness:
  "dict_get (api_error (snd (control_cycle down_after_startup hot_room1))) ''room1'' = Some True
   \<and> dict_get (api_error
        (run_cycles backend_inactive 2 (snd (control_cycle down_after_startup hot_room1))))
        ''room1'' = Some True
   \<and> calls_for ''room1''
        (run_cycles backend_inactive 2 (snd (control_cycle down_after_startup hot_room1)))
       = calls_for ''room1'' (snd (control_cycle down_after_startup hot_room1))"
proof -
  have h: "dict_get (api_error (snd (control_cycle down_after_startup hot_room1))) ''room1''
      = Some True" by code_simp
  show ?thesis
    using backend_fault_never_cleared_by_loop[OF h, of backend_inactive 2] h by simp
qed

text \<open>
  Claim C9. \<^verbatim>\<open>__init__\<close> stores the temperature 0.0 for every room of \<open>ROOMS\<close>. In a
  state whose temperature keys all have their entries in the three dictionaries the loop
  reads, a room without faults that still has the temperature 0.0 and a recorded HVAC
  state other than \<^verbatim>\<open>False\<close> gets \<^verbatim>\<open>should_activate = False\<close>, and the pass
  issues between one and \<open>API_Rerty_Limit\<close> deactivate requests for it.
\<close>

theorem initial_temperature_deactivates:
  "(\<forall>r \<in> set ROOMS. dict_get (temperatures init_service) r = Some (Fin 0))
   \<and> (distinct (dict_keys (temperatures s))
        \<and> (\<forall>q \<in> set (dict_keys (temperatures s)). has_entries s q)
        \<and> dict_get (temperatures s) r = Some (Fin 0)
        \<and> dict_get (sensor_error s) r = Some False
        \<and> dict_get (api_error s) r = Some False
        \<and> dict_get (hvac_active s) r = Some h
        \<and> h \<noteq> Some False
      \<longrightarrow> \<not> above_threshold (Fin 0)
          \<and> (\<exists>k. 0 < k \<and> k \<le> API_Rerty_Limit
                \<and> calls_for r (snd (control_cycle b s))
                    = calls_for r s @ replicate k (Post r False)))"
proof (intro conjI impI)
  show "\<forall>r \<in> set ROOMS. dict_get (temperatures init_service) r = Some (Fin 0)"
    by (simp add: init_simps)
next
  show "\<not> above_threshold (Fin 0)" by simp
next
  assume a: "distinct (dict_keys (temperatures s))
        \<and> (\<forall>q \<in> set (dict_keys (temperatures s)). has_entries s q)
        \<and> dict_get (temperatures s) r = Some (Fin 0)
        \<and> dict_get (sensor_error s) r = Some False
        \<and> dict_get (api_error s) r = Some False
        \<and> dict_get (hvac_active s) r = Some h
        \<and> h \<noteq> Some False"
  have d: "distinct (map fst (temperatures s))"
    using a by (simp add: dict_keys_def)
  have mem: "(r, Fin 0) \<in> set (temperatures s)"
    using a dict_get_mem by fast
  have ent: "\<forall>q \<in> fst ` set (temperatures s). has_entries s q"
    using a by (simp add: dict_keys_def)
  have h: "h \<noteq> Some (above_threshold (Fin 0))" using a by simp
  have run: "run_rooms b (temperatures s) s = (fst (control_cycle b s), snd (control_cycle b s))"
    by (simp add: control_cycle_def)
  from run_rooms_acts[OF d mem ent _ _ _ h run, of] a
  show "\<exists>k. 0 < k \<and> k \<le> API_Rerty_Limit
                \<and> calls_for r (snd (control_cycle b s))
                    = calls_for r s @ replicate k (Post r False)"
    by auto
qed

theorem initial_temperature_deactivates_witness:
  "''room1'' \<in> set ROOMS
   \<and> dict_get (temperatures init_service) ''room1'' = Some (Fin 0)
   \<and> distinct (dict_keys (temperatures (startup backend_active init_service)))
   \<and> list_all (has_entries (startup backend_active init_service))
         (dict_keys (temperatures (startup backend_active init_service)))
   \<and> dict_get (temperatures (startup backend_active init_service)) ''room1'' = Some (Fin 0)
   \<and> dict_get (sensor_error (startup backend_active init_service)) ''room1'' = Some False
   \<and> dict_get (api_error (startup backend_active init_service)) ''room1'' = Some False
   \<and> dict_get (hvac_active (startup backend_active init_service)) ''room1'' = Some (Some True)
   \<and> (\<exists>k. 0 < k \<and> k \<le> API_Rerty_Limit
         \<and> calls_for ''room1'' (snd (control_cycle backend_active (startup backend_active init_service)))
             = calls_for ''room1'' (startup backend_active init_service) @ replicate k (Post ''room1'' False))"
proof -
  let ?s = "startup backend_active init_service"
  have h0: "''room1'' \<in> set ROOMS" by code_simp
  have h1: "distinct (dict_keys (temperatures ?s))" by code_simp
  have h2: "\<forall>q \<in> set (dict_keys (temperatures ?s)). has_entries ?s q" by code_simp
  have h3: "dict_get (temperatures ?s) ''room1'' = Some (Fin 0)" by code_simp
  have h4: "dict_get (sensor_error ?s) ''room1'' = Some False" by code_simp
  have h5: "dict_get (api_error ?s) ''room1'' = Some False" by code_simp
  have h6: "dict_get (hvac_active ?s) ''room1'' = Some (Some True)" by code_simp
  have h7: "Some True \<noteq> Some False" by simp
  note T = initial_temperature_deactivates[of ?s "''room1''" "Some True" backend_active]
  have a: "dict_get (temperatures init_service) ''room1'' = Some (Fin 0)"
    using T h0 by blast
  have b: "\<exists>k. 0 < k \<and> k \<le> API_Rerty_Limit
         \<and> calls_for ''room1'' (snd (control_cycle backend_active ?s))
             = calls_for ''room1'' ?s @ replicate k (Post ''room1'' False)"
    using T h1 h2 h3 h4 h5 h6 h7 by blast
  have h2': "list_all (has_entries ?s) (dict_keys (temperatures ?s))"
    using h2 by (simp add: list_all_iff)
  show ?thesis
    using a b h0 h1 h2' h3 h4 h5 h6 by blast
qed




section \<open>Readings for rooms outside the configuration\<close>

text \<open>
  Claim C2. The valid branch of \<^verbatim>\<open>on_message\<close> assigns to three dictionaries without
  asking whether the room is known, while the handler for invalid readings asks
  \<^verbatim>\<open>room in self.invalid_counts\<close> first. A valid reading on the topic of an unknown
  room therefore adds the room to \<open>temperatures\<close>, \<open>invalid_counts\<close> and
  \<open>sensor_error\<close> but not to \<open>api_error\<close>; the next pass of the control loop ends in
  \<^verbatim>\<open>KeyError\<close>. An invalid reading on the same topic changes nothing.
\<close>

theorem unknown_room_reading_creates_entries:
  "dict_keys (temperatures init_service) = ROOMS
   \<and> dict_keys (temperatures (on_message init_service unknown_room_reading))
       = ROOMS @ [''nonexistent'']
   \<and> dict_keys (invalid_counts (on_message init_service unknown_room_reading))
       = ROOMS @ [''nonexistent'']
   \<and> dict_keys (sensor_error (on_message init_service unknown_room_reading))
       = ROOMS @ [''nonexistent'']
   \<and> dict_keys (api_error (on_message init_service unknown_room_reading)) = ROOMS
   \<and> fst (control_cycle backend_inactive (on_message init_service unknown_room_reading))
       = Some KeyError
   \<and> on_message init_service (reading ''building/nonexistent/temperature'' None) = init_service"
  by code_simp

end
